theory Spec2Isabelle
  imports Complex_Main "HOL-Library.Sublist" "HOL-Library.Multiset"
begin

section \<open>Strings\<close>

text \<open>
  A JavaScript string is modelled as a \<^typ>\<open>string\<close>: a list of code units below 256, the
  Latin-1 range, on which \<open>toLowerCase\<close> works unit by unit and the whitespace class
  \<open>\s\<close> of regular expressions is the set of units 9 to 13, 32 and 160.
\<close>

definition lower_unit :: "char \<Rightarrow> char" where
  "lower_unit c =
     (let n = (of_char c :: nat)
      in if (65 \<le> n \<and> n \<le> 90) \<or> (192 \<le> n \<and> n \<le> 222 \<and> n \<noteq> 215)
         then char_of (n + 32) else c)"

definition toLowerCase :: "string \<Rightarrow> string" where
  "toLowerCase s = map lower_unit s"

definition is_space :: "char \<Rightarrow> bool" where
  "is_space c = (let n = (of_char c :: nat) in (9 \<le> n \<and> n \<le> 13) \<or> n = 32 \<or> n = 160)"

text \<open>\<open>s.startsWith(t)\<close> and \<open>s.includes(t)\<close>, by recursion over the units of \<open>s\<close>.\<close>

fun startsWith :: "string \<Rightarrow> string \<Rightarrow> bool" where
  "startsWith s [] = True"
| "startsWith [] (c # t) = False"
| "startsWith (d # s) (c # t) = (d = c \<and> startsWith s t)"

fun str_includes :: "string \<Rightarrow> string \<Rightarrow> bool" where
  "str_includes [] t = (t = [])"
| "str_includes (d # s) t = (startsWith (d # s) t \<or> str_includes s t)"

text \<open>
  \<open>s.split(/\s+/)\<close>: the pieces of \<open>s\<close> between its maximal runs of whitespace. A piece
  is empty where \<open>s\<close> starts or ends with whitespace, and the empty string splits into one
  empty piece.
\<close>

function split_ws :: "string \<Rightarrow> string list" where
  "split_ws s =
     takeWhile (\<lambda>c. \<not> is_space c) s #
       (case dropWhile (\<lambda>c. \<not> is_space c) s of
          [] \<Rightarrow> []
        | c # rest \<Rightarrow> split_ws (dropWhile is_space rest))"
  by pat_completeness auto
termination
proof (relation "measure length")
  fix s :: string and c rest
  assume eq: "dropWhile (\<lambda>c. \<not> is_space c) s = c # rest"
  have "length (dropWhile is_space rest) \<le> length rest"
    by (rule length_dropWhile_le)
  also have "length rest < length (dropWhile (\<lambda>c. \<not> is_space c) s)"
    by (simp add: eq)
  also have "\<dots> \<le> length s"
    by (rule length_dropWhile_le)
  finally show "(dropWhile is_space rest, s) \<in> measure length"
    by simp
qed simp

declare split_ws.simps [simp del]

text \<open>\<open>query.toLowerCase().split(/\s+/).filter(Boolean)\<close>: the empty pieces are falsy.\<close>

definition tokenize :: "string \<Rightarrow> string list" where
  "tokenize query = filter (\<lambda>t. t \<noteq> []) (split_ws (toLowerCase query))"

section \<open>Skill records and scoring\<close>

text \<open>
  A skill record of a registry. The fields \<open>description\<close>, \<open>tags\<close> and \<open>registry\<close> may
  be missing from the JSON object (\<open>None\<close>); the loader sets \<open>registry\<close>.
\<close>

record skill =
  name :: string
  description :: "string option"
  source :: string
  tags :: "string list option"
  version :: string
  verified :: bool
  registry :: "string option"

text \<open>The body of the loop of \<open>scoreSkill\<close>: what one lower-cased term adds to the score.\<close>

definition score_term :: "string \<Rightarrow> string \<Rightarrow> string list \<Rightarrow> string \<Rightarrow> int \<Rightarrow> int" where
  "score_term nm desc tgs term score =
     (let score1 = (if nm = term then score + 100
                    else if startsWith nm term then score + 60
                    else if str_includes nm term then score + 40
                    else score);
          score2 = (if term \<in> set tgs then score1 + 30
                    else if list_ex (\<lambda>t. startsWith t term) tgs then score1 + 20
                    else score1)
      in if str_includes desc term then score2 + 10 else score2)"

definition scoreSkill :: "'a skill_scheme \<Rightarrow> string list \<Rightarrow> int" where
  "scoreSkill sk terms =
     (let lowerTerms = map toLowerCase terms;
          nm = toLowerCase (name sk);
          desc = toLowerCase (case description sk of None \<Rightarrow> [] | Some d \<Rightarrow> d);
          tgs = map toLowerCase (case tags sk of None \<Rightarrow> [] | Some ts \<Rightarrow> ts)
      in fold (score_term nm desc tgs) lowerTerms 0)"

text \<open>
  The weights in the words of the specification, for one token \<open>t\<close> against the lower-cased
  name, tags and description of a record: one of the name weights at most, one of the
  tag weights at most, and the description weight.
\<close>

definition name_points :: "string \<Rightarrow> string \<Rightarrow> int" where
  "name_points nm t =
     (if nm = t then 100 else if prefix t nm then 60 else if sublist t nm then 40 else 0)"

definition tag_points :: "string list \<Rightarrow> string \<Rightarrow> int" where
  "tag_points tgs t =
     (if t \<in> set tgs then 30 else if (\<exists>g. g \<in> set tgs \<and> prefix t g) then 20 else 0)"

definition description_points :: "string \<Rightarrow> string \<Rightarrow> int" where
  "description_points desc t = (if sublist t desc then 10 else 0)"

definition token_points :: "'a skill_scheme \<Rightarrow> string \<Rightarrow> int" where
  "token_points sk t =
     name_points (toLowerCase (name sk)) t
     + tag_points (map toLowerCase (case tags sk of None \<Rightarrow> [] | Some ts \<Rightarrow> ts)) t
     + description_points (toLowerCase (case description sk of None \<Rightarrow> [] | Some d \<Rightarrow> d)) t"

section \<open>Arrays\<close>

text \<open>
  \<open>xs.sort(cmp)\<close> is a stable sort: with a comparator that orders consistently, the
  result is the one of straight insertion, each element placed after the elements that
  do not compare greater than it.
\<close>

fun insert_sorted :: "('a \<Rightarrow> 'a \<Rightarrow> int) \<Rightarrow> 'a \<Rightarrow> 'a list \<Rightarrow> 'a list" where
  "insert_sorted cmp x [] = [x]"
| "insert_sorted cmp x (y # ys) =
     (if cmp x y < 0 then x # y # ys else y # insert_sorted cmp x ys)"

definition js_sort :: "('a \<Rightarrow> 'a \<Rightarrow> int) \<Rightarrow> 'a list \<Rightarrow> 'a list" where
  "js_sort cmp xs = fold (insert_sorted cmp) xs []"

text \<open>
  \<open>xs.slice(0, end)\<close>: a negative \<open>end\<close> counts from the end of the array, and the
  bounds are clamped to the array.
\<close>

definition slice0 :: "'a list \<Rightarrow> int \<Rightarrow> 'a list" where
  "slice0 xs end =
     (let len = int (length xs);
          final = (if end < 0 then max (len + end) 0 else min end len)
      in take (nat final) xs)"

section \<open>The index and the query engine\<close>

record registry_info =
  reg_source :: string
  fetched_at :: int

text \<open>
  The index object as \<open>JSON.parse\<close> returns it from the cache file. \<open>updated_at\<close> holds
  the time value in milliseconds of \<open>new Date(index.updated_at)\<close>, \<open>None\<close> for an invalid
  date (a missing or malformed field); \<open>skills\<close> is \<open>None\<close> where the field is not an
  array.
\<close>

record index =
  index_version :: string
  updated_at :: "int option"
  registries :: "string \<rightharpoonup> registry_info"
  skills :: "skill list option"

text \<open>
  What \<open>JSON.parse\<close> can return: \<open>null\<close>, an index object, or any other value (a scalar
  or an array), which has no fields and is truthy or falsy.
\<close>

datatype json_doc = JNull | JOther bool | JDoc index

datatype js_error = TypeError | SyntaxError | IOError

fun truthy :: "json_doc \<Rightarrow> bool" where
  "truthy JNull = False"
| "truthy (JOther b) = b"
| "truthy (JDoc d) = True"

text \<open>\<open>index.skills\<close>, used as an array: a \<open>TypeError\<close> where it is none.\<close>

fun doc_skills :: "json_doc \<Rightarrow> js_error + skill list" where
  "doc_skills JNull = Inl TypeError"
| "doc_skills (JOther b) = Inl TypeError"
| "doc_skills (JDoc d) = (case skills d of None \<Rightarrow> Inl TypeError | Some sks \<Rightarrow> Inr sks)"

record scored_skill = skill +
  score :: int

text \<open>The object \<open>{...skill, score: n}\<close>.\<close>

definition with_score :: "skill \<Rightarrow> int \<Rightarrow> scored_skill" where
  "with_score sk n =
     \<lparr>name = name sk, description = description sk, source = source sk, tags = tags sk,
      version = version sk, verified = verified sk, registry = registry sk, score = n\<rparr>"

record search_options =
  rebuild :: bool
  online :: bool
  limit :: "int option"

definition searchSkills ::
    "json_doc \<Rightarrow> string \<Rightarrow> search_options \<Rightarrow> js_error + scored_skill list" where
  "searchSkills idx query options =
     (let lim = (case limit options of None \<Rightarrow> 10 | Some l \<Rightarrow> l);
          terms = tokenize query
      in if length terms = 0 then Inr []
         else case doc_skills idx of
                Inl err \<Rightarrow> Inl err
              | Inr sks \<Rightarrow>
                  Inr (slice0
                        (js_sort (\<lambda>a b. score b - score a)
                          (filter (\<lambda>s. score s > 0)
                            (map (\<lambda>sk. with_score sk (scoreSkill sk terms)) sks)))
                        lim))"

section \<open>Registry sources\<close>

text \<open>
  The text of a registry, local file or remote body, is represented by what \<open>JSON.parse\<close>
  makes of it: a syntax error, \<open>null\<close>, or a value whose \<open>skills\<close> field is missing (or
  falsy), an array of skill records, or some other truthy value.
\<close>

datatype skills_field = Absent | Not_array | Array "skill list"

datatype registry_json = Unparsable | Null_json | Object skills_field

text \<open>
  What \<open>https.get(url, callback)\<close> does: it throws at once (the string is no absolute
  \<open>https\<close> URL), or the request emits an error event, or no answer ever comes, or the
  callback gets a response with a status, a Location header and a body.
\<close>

datatype http_response = Throws | Network_error | Silent | Response nat "string option" registry_json

datatype fetch_error = Http nat | Connection | Invalid_url

text \<open>
  What the program reads from its host and does not change: the registries directory
  (\<open>None\<close> where it does not exist, else its entries in the order of \<open>readdirSync\<close>, each
  with its content, \<open>None\<close> for a file that cannot be read), the configured remote
  registries (name and URL), the network, and the collation of \<open>localeCompare\<close>. The
  network answers a request for a URL, and the request that \<open>https.get(undefined)\<close> sends
  to the default host (\<open>None\<close>).
\<close>

record host =
  REGISTRIES_DIR :: string
  registry_files :: "(string \<times> registry_json option) list option"
  remoteUrls :: "(string \<times> string) list"
  net :: "string option \<Rightarrow> http_response"
  localeCompare :: "string \<Rightarrow> string \<Rightarrow> int"

text \<open>
  The function \<open>get\<close> inside \<open>fetchUrl\<close>. \<open>None\<close> is a promise that is never settled.
  The first call runs in the executor of the promise, where an exception of \<open>https.get\<close>
  rejects the promise; the later calls, one for every 301 and 302, run in the callback of
  a response, where that exception is caught by nothing. A redirect without Location
  header calls \<open>https.get(undefined, callback)\<close>, which sends a request without the
  callback: only an error event of that request settles the promise.
\<close>

partial_function (option) get ::
    "(string option \<Rightarrow> http_response) \<Rightarrow> bool \<Rightarrow> string option
      \<Rightarrow> (fetch_error + registry_json) option" where
  "get https_get in_callback url =
     (case url of
        None \<Rightarrow> (case https_get None of Network_error \<Rightarrow> Some (Inl Connection) | _ \<Rightarrow> None)
      | Some u \<Rightarrow>
          (case https_get (Some u) of
             Throws \<Rightarrow> if in_callback then None else Some (Inl Invalid_url)
           | Network_error \<Rightarrow> Some (Inl Connection)
           | Silent \<Rightarrow> None
           | Response statusCode location body \<Rightarrow>
               if statusCode = 301 \<or> statusCode = 302 then get https_get True location
               else if statusCode \<noteq> 200 then Some (Inl (Http statusCode))
               else Some (Inr body)))"

declare get.simps [code]

definition fetchUrl ::
    "(string option \<Rightarrow> http_response) \<Rightarrow> string \<Rightarrow> (fetch_error + registry_json) option" where
  "fetchUrl https_get url = get https_get False (Some url)"




definition endsWith :: "string \<Rightarrow> string \<Rightarrow> bool" where
  "endsWith s t = startsWith (rev s) (rev t)"

text \<open>\<open>s.replace(pat, rep)\<close> with a string pattern: the first occurrence only.\<close>

fun replace_first :: "string \<Rightarrow> string \<Rightarrow> string \<Rightarrow> string" where
  "replace_first [] pat rep = (if pat = [] then rep else [])"
| "replace_first (c # s) pat rep =
     (if startsWith (c # s) pat then rep @ drop (length pat) (c # s)
      else c # replace_first s pat rep)"

text \<open>The object \<open>{...skill, registry: name}\<close>.\<close>

definition stamp :: "string \<Rightarrow> skill \<Rightarrow> skill" where
  "stamp nm sk = sk\<lparr>registry := Some nm\<rparr>"

text \<open>The pair \<open>{ registries, skills }\<close> that the loader returns and the merge extends.\<close>

type_synonym loaded = "(string \<rightharpoonup> registry_info) \<times> skill list"

text \<open>
  The loop of \<open>loadLocalRegistries\<close> over the files. A file that cannot be read or parsed
  is skipped; \<open>null\<close> is recorded as a registry before the read of its \<open>skills\<close> throws.
\<close>

fun load_files ::
    "string \<Rightarrow> int \<Rightarrow> (string \<times> registry_json option) list \<Rightarrow> loaded \<Rightarrow> loaded" where
  "load_files dir now [] acc = acc"
| "load_files dir now ((file, content) # files) (regs, sks) =
     (let nm = replace_first file ''.json'' [];
          filePath = dir @ ''/'' @ file;
          info = \<lparr>reg_source = ''local:'' @ filePath, fetched_at = now\<rparr>
      in case content of
           None \<Rightarrow> load_files dir now files (regs, sks)
         | Some Unparsable \<Rightarrow> load_files dir now files (regs, sks)
         | Some Null_json \<Rightarrow> load_files dir now files (regs(nm \<mapsto> info), sks)
         | Some (Object fld) \<Rightarrow>
             load_files dir now files
               (regs(nm \<mapsto> info),
                case fld of Array content_skills \<Rightarrow> sks @ map (stamp nm) content_skills | _ \<Rightarrow> sks))"

definition loadLocalRegistries :: "host \<Rightarrow> int \<Rightarrow> loaded" where
  "loadLocalRegistries h now =
     (case registry_files h of
        None \<Rightarrow> (Map.empty, [])
      | Some entries \<Rightarrow>
          load_files (REGISTRIES_DIR h) now
            (filter (\<lambda>(f, content). endsWith f ''.json'' \<and> f \<noteq> ''schema.json'') entries)
            (Map.empty, []))"

text \<open>
  \<open>fetchRemoteRegistry\<close>: \<open>Some None\<close> is the \<open>null\<close> it returns after any failure, \<open>None\<close>
  a fetch that never returns.
\<close>

definition fetchRemoteRegistry ::
    "host \<Rightarrow> int \<Rightarrow> string \<Rightarrow> string \<Rightarrow> (registry_info \<times> skill list) option option" where
  "fetchRemoteRegistry h now url nm =
     (case fetchUrl (net h) url of
        None \<Rightarrow> None
      | Some (Inl err) \<Rightarrow> Some None
      | Some (Inr Unparsable) \<Rightarrow> Some None
      | Some (Inr Null_json) \<Rightarrow> Some None
      | Some (Inr (Object Not_array)) \<Rightarrow> Some None
      | Some (Inr (Object Absent)) \<Rightarrow> Some (Some (\<lparr>reg_source = url, fetched_at = now\<rparr>, []))
      | Some (Inr (Object (Array data_skills))) \<Rightarrow>
          Some (Some (\<lparr>reg_source = url, fetched_at = now\<rparr>, map (stamp nm) data_skills)))"

text \<open>
  The merge of one remote registry into \<open>local\<close>: the set \<open>existingNames\<close> is computed once,
  before the loop over the remote skills.
\<close>

fun push_new :: "string set \<Rightarrow> skill list \<Rightarrow> skill list \<Rightarrow> skill list" where
  "push_new existingNames [] sks = sks"
| "push_new existingNames (sk # rest) sks =
     push_new existingNames rest (if name sk \<notin> existingNames then sks @ [sk] else sks)"

definition merge_remote :: "string \<Rightarrow> registry_info \<times> skill list \<Rightarrow> loaded \<Rightarrow> loaded" where
  "merge_remote nm remote local =
     (case local of (regs, sks) \<Rightarrow>
        (regs(nm \<mapsto> fst remote), push_new (set (map name sks)) (snd remote) sks))"

text \<open>The loop of \<open>buildIndex\<close> over the entries of \<open>remoteUrls\<close>.\<close>

fun merge_remotes :: "host \<Rightarrow> int \<Rightarrow> (string \<times> string) list \<Rightarrow> loaded \<Rightarrow> loaded option" where
  "merge_remotes h now [] local = Some local"
| "merge_remotes h now ((nm, url) # rest) local =
     (case fetchRemoteRegistry h now url nm of
        None \<Rightarrow> None
      | Some None \<Rightarrow> merge_remotes h now rest local
      | Some (Some remote) \<Rightarrow> merge_remotes h now rest (merge_remote nm remote local))"

section \<open>The cache and the build\<close>

text \<open>
  The cache file: missing, present but unreadable, present with a text that
  \<open>JSON.parse\<close> rejects, or present with a text that parses.
\<close>

datatype cache_file = Missing | Unreadable | Malformed | Parsed json_doc

text \<open>
  What the program shares with its environment: the cache file and the clock, in
  milliseconds. The environment (other processes, the passing of time) is a function \<open>e\<close>
  that acts on the world before each operation of the program on the cache.
\<close>

record world =
  cache :: cache_file
  clock :: int
  cache_writable :: bool

type_synonym env = "world \<Rightarrow> world"

definition TTL_HOURS :: real where
  "TTL_HOURS = 24"

definition INDEX_VERSION :: string where
  "INDEX_VERSION = ''1.0.0''"

text \<open>\<open>fs.existsSync(INDEX_PATH)\<close>.\<close>

fun existsSync :: "cache_file \<Rightarrow> bool" where
  "existsSync Missing = False"
| "existsSync Unreadable = True"
| "existsSync Malformed = True"
| "existsSync (Parsed d) = True"

text \<open>\<open>JSON.parse(fs.readFileSync(INDEX_PATH, 'utf8'))\<close>.\<close>

fun read_json :: "cache_file \<Rightarrow> js_error + json_doc" where
  "read_json Missing = Inl IOError"
| "read_json Unreadable = Inl IOError"
| "read_json Malformed = Inl SyntaxError"
| "read_json (Parsed d) = Inr d"

text \<open>
  \<open>new Date(index.updated_at)\<close>: reading a field of \<open>null\<close> throws, a missing field gives
  an invalid date, whose time value is \<open>NaN\<close> (\<open>None\<close>).
\<close>

fun date_updated_at :: "json_doc \<Rightarrow> js_error + int option" where
  "date_updated_at JNull = Inl TypeError"
| "date_updated_at (JOther b) = Inr None"
| "date_updated_at (JDoc d) = Inr (updated_at d)"

text \<open>
  The hours since the update are a quotient of doubles in the program; it is exact
  enough that the comparison with 24 is the one of the real quotient. A comparison with
  \<open>NaN\<close> is false.
\<close>

definition isIndexFresh :: "world \<Rightarrow> bool" where
  "isIndexFresh w =
     (if \<not> existsSync (cache w) then False
      else case read_json (cache w) of
             Inl err \<Rightarrow> False
           | Inr idx \<Rightarrow>
               (case date_updated_at idx of
                  Inl err \<Rightarrow> False
                | Inr None \<Rightarrow> False
                | Inr (Some updatedAt) \<Rightarrow>
                    (let now = clock w;
                         hoursSinceUpdate = real_of_int (now - updatedAt) / (1000 * 60 * 60)
                     in hoursSinceUpdate < TTL_HOURS)))"

definition loadExistingIndex :: "world \<Rightarrow> json_doc" where
  "loadExistingIndex w =
     (if \<not> existsSync (cache w) then JNull
      else case read_json (cache w) of Inl err \<Rightarrow> JNull | Inr idx \<Rightarrow> idx)"

text \<open>
  The rebuild proper, the part of \<open>buildIndex\<close> after its freshness check. The
  environment acts once more before the index is dated and written.
\<close>

definition rebuild_index ::
    "host \<Rightarrow> env \<Rightarrow> world \<Rightarrow> ((js_error + json_doc) \<times> world) option" where
  "rebuild_index h e w =
     (case merge_remotes h (clock w) (remoteUrls h) (loadLocalRegistries h (clock w)) of
        None \<Rightarrow> None
      | Some (regs, sks) \<Rightarrow>
          (let sorted = js_sort (\<lambda>a b. localeCompare h (name a) (name b)) sks;
               w1 = e w;
               idx = \<lparr>index_version = INDEX_VERSION, updated_at = Some (clock w1),
                      registries = regs, skills = Some sorted\<rparr>
           in if cache_writable w1
              then Some (Inr (JDoc idx), w1\<lparr>cache := Parsed (JDoc idx)\<rparr>)
              else Some (Inl IOError, w1)))"

definition buildIndex ::
    "host \<Rightarrow> env \<Rightarrow> bool \<Rightarrow> world \<Rightarrow> ((js_error + json_doc) \<times> world) option" where
  "buildIndex h e force w =
     (if force then rebuild_index h e w
      else (let w1 = e w
            in if isIndexFresh w1
               then (let w2 = e w1 in Some (Inr (loadExistingIndex w2), w2))
               else rebuild_index h e w1))"

section \<open>The search\<close>

text \<open>The first part of \<open>search\<close>: get or build the index.\<close>

definition obtain_index ::
    "host \<Rightarrow> env \<Rightarrow> search_options \<Rightarrow> world \<Rightarrow> ((js_error + json_doc) \<times> world) option" where
  "obtain_index h e options w =
     (let (stale, w1) =
            (if rebuild options \<or> online options then (True, w)
             else (let w' = e w in (\<not> isIndexFresh w', w')))
      in if stale then buildIndex h e (rebuild options \<or> online options) w1
         else (let w2 = e w1;
                   idx = loadExistingIndex w2
               in if \<not> truthy idx then buildIndex h e False w2
                  else Some (Inr idx, w2)))"

record search_result =
  results :: "scored_skill list"
  elapsed :: int
  fromCache :: bool

definition search ::
    "host \<Rightarrow> env \<Rightarrow> string \<Rightarrow> search_options \<Rightarrow> world
      \<Rightarrow> ((js_error + search_result) \<times> world) option" where
  "search h e query options w =
     (let startTime = clock w
      in case obtain_index h e options w of
           None \<Rightarrow> None
         | Some (Inl err, w3) \<Rightarrow> Some (Inl err, w3)
         | Some (Inr idx, w3) \<Rightarrow>
             (case searchSkills idx query options of
                Inl err \<Rightarrow> Some (Inl err, w3)
              | Inr res \<Rightarrow>
                  (let el = clock w3 - startTime
                   in if \<not> rebuild options \<and> \<not> online options
                      then (let w4 = e w3
                            in Some (Inr \<lparr>results = res, elapsed = el,
                                          fromCache = isIndexFresh w4\<rparr>, w4))
                      else Some (Inr \<lparr>results = res, elapsed = el, fromCache = False\<rparr>, w3))))"

section \<open>Collations\<close>

text \<open>
  The comparison of two strings unit by unit, the order of the comparison operators on strings: negative,
  zero or positive. It is the plain lexicographic order of character codes, and what
  \<open>localeCompare\<close> computes on a host without collation data.
\<close>

fun code_unit_compare :: "string \<Rightarrow> string \<Rightarrow> int" where
  "code_unit_compare [] [] = 0"
| "code_unit_compare [] (d # t) = - 1"
| "code_unit_compare (c # s) [] = 1"
| "code_unit_compare (c # s) (d # t) =
     (if (of_char c :: nat) < of_char d then - 1
      else if (of_char d :: nat) < of_char c then 1
      else code_unit_compare s t)"

text \<open>
  A collation of the kind \<open>localeCompare\<close> has with collation data in an English locale,
  on letters: the strings are compared without regard to case first, and a lower-case
  letter comes before its upper-case letter only when that comparison is a tie.
\<close>

definition collate_letters :: "string \<Rightarrow> string \<Rightarrow> int" where
  "collate_letters a b =
     (let c = code_unit_compare (toLowerCase a) (toLowerCase b)
      in if c \<noteq> 0 then c else code_unit_compare b a)"

text \<open>
  A comparator orders consistently when it is total and transitive; the result of
  \<open>sort\<close> is defined for such comparators only.
\<close>

definition consistent :: "('a \<Rightarrow> 'a \<Rightarrow> int) \<Rightarrow> bool" where
  "consistent cmp =
     ((\<forall>a b. 0 \<le> cmp a b \<longrightarrow> cmp b a \<le> 0)
      \<and> (\<forall>a b c. cmp a b \<le> 0 \<and> cmp b c \<le> 0 \<longrightarrow> cmp a c \<le> 0))"

text \<open>The \<open>skills\<close> of the index that a rebuild returns.\<close>

definition built_skills :: "host \<Rightarrow> env \<Rightarrow> world \<Rightarrow> skill list option" where
  "built_skills h e w =
     (case rebuild_index h e w of
        Some (Inr (JDoc idx), w') \<Rightarrow> skills idx
      | _ \<Rightarrow> None)"

section \<open>Example records, hosts and environments\<close>

text \<open>A registry entry with all its fields, as the files under \<open>registries\<close> write them.\<close>

definition catalog_entry :: "string \<Rightarrow> string \<Rightarrow> string list \<Rightarrow> skill" where
  "catalog_entry nm desc tgs =
     \<lparr>name = nm, description = Some desc, source = ''github:example/'' @ nm,
      tags = Some tgs, version = ''1.0.0'', verified = False, registry = None\<rparr>"

text \<open>An environment in which time passes and nothing else happens.\<close>

definition tick :: env where
  "tick w = w\<lparr>clock := clock w + 1\<rparr>"

text \<open>A network with one registry, served at one URL.\<close>

definition serve :: "string \<Rightarrow> registry_json \<Rightarrow> string option \<Rightarrow> http_response" where
  "serve location body url =
     (if url = Some location then Response 200 None body else Response 404 None Unparsable)"

text \<open>
  A host with one local registry and one remote registry, which both hold a skill named
  \<open>evolve\<close>, and a first run of the program on it: no cache yet.
\<close>

definition core_skills :: "skill list" where
  "core_skills =
     [catalog_entry ''evolve'' ''Genetic algorithm optimizer'' [''optimization'', ''rust''],
      catalog_entry ''commit-wizard'' ''Smart git commits'' [''git'', ''commits'']]"

definition community_skills :: "skill list" where
  "community_skills =
     [catalog_entry ''evolve'' ''A copy of evolve'' [''fork''],
      catalog_entry ''doc-scribe'' ''Generate documentation'' [''documentation'']]"

definition example_host :: host where
  "example_host =
     \<lparr>REGISTRIES_DIR = ''registries'',
      registry_files = Some [(''core.json'', Some (Object (Array core_skills))),
                             (''schema.json'', Some (Object Absent))],
      remoteUrls = [(''community'', ''https://example.org/community.json'')],
      net = serve ''https://example.org/community.json'' (Object (Array community_skills)),
      localeCompare = code_unit_compare\<rparr>"

definition first_run :: world where
  "first_run = \<lparr>cache = Missing, clock = 0, cache_writable = True\<rparr>"



text \<open>
  An environment in which another process deletes the cache file when the clock reads 1,
  and a run that starts at time 0 with a cache written at time 0.
\<close>

definition vanishing_cache :: env where
  "vanishing_cache w =
     w\<lparr>clock := clock w + 1, cache := (if clock w = 1 then Missing else cache w)\<rparr>"

definition cached_run :: world where
  "cached_run =
     \<lparr>cache = Parsed (JDoc \<lparr>index_version = INDEX_VERSION, updated_at = Some 0,
                             registries = Map.empty,
                             skills = Some (map (stamp ''core'') core_skills)\<rparr>),
      clock = 0, cache_writable = True\<rparr>"

text \<open>
  An environment in which another process rewrites the cache file again and again: the
  file is truncated when the clock reads 1 and 3 and complete, as at the start of
  \<open>cached_run\<close>, at the other times.
\<close>

definition flickering_cache :: env where
  "flickering_cache w =
     w\<lparr>clock := clock w + 1,
       cache := (if clock w = 1 \<or> clock w = 3 then Malformed else cache cached_run)\<rparr>"

section \<open>Facts about strings\<close>

lemma startsWith_prefix: "startsWith s t = prefix t s"
  by (induction s t rule: startsWith.induct) auto

lemma includes_sublist: "str_includes s t = sublist t s"
proof (induction s)
  case Nil
  then show ?case by simp
next
  case (Cons d s)
  then show ?case
    by (simp add: startsWith_prefix sublist_Cons_right)
qed

lemma lower_unit_idem: "lower_unit (lower_unit c) = lower_unit c"
  by (auto simp add: lower_unit_def Let_def)

lemma is_space_lower_unit: "is_space (lower_unit c) = is_space c"
  by (auto simp add: lower_unit_def is_space_def Let_def)

text \<open>Every piece of a split is made of units of the string.\<close>

lemma split_ws_units: "p \<in> set (split_ws s) \<Longrightarrow> set p \<subseteq> set s"
proof (induction s arbitrary: p rule: split_ws.induct)
  case (1 s)
  show ?case
  proof (cases "dropWhile (\<lambda>c. \<not> is_space c) s")
    case Nil
    with "1.prems" have "p = takeWhile (\<lambda>c. \<not> is_space c) s"
      by (subst (asm) split_ws.simps) simp
    then show ?thesis by (auto dest: set_takeWhileD)
  next
    case (Cons c rest)
    with "1.prems" consider "p = takeWhile (\<lambda>c. \<not> is_space c) s"
      | "p \<in> set (split_ws (dropWhile is_space rest))"
      by (subst (asm) split_ws.simps) auto
    then show ?thesis
    proof cases
      case 1
      then show ?thesis by (auto dest: set_takeWhileD)
    next
      case 2
      then have "set p \<subseteq> set (dropWhile is_space rest)"
        using "1.IH" Cons by blast
      also have "\<dots> \<subseteq> set rest" by (auto dest: set_dropWhileD)
      also have "\<dots> \<subseteq> set (dropWhile (\<lambda>c. \<not> is_space c) s)" by (simp add: Cons subset_insertI)
      also have "\<dots> \<subseteq> set s" by (auto dest: set_dropWhileD)
      finally show ?thesis .
    qed
  qed
qed

lemma tokenize_lower:
  assumes "t \<in> set (tokenize q)"
  shows "toLowerCase t = t"
proof -
  from assms have "set t \<subseteq> set (toLowerCase q)"
    by (auto simp add: tokenize_def dest: split_ws_units)
  then have "\<forall>c\<in>set t. lower_unit c = c"
    by (auto simp add: toLowerCase_def lower_unit_idem)
  then show ?thesis
    by (simp add: toLowerCase_def map_idI)
qed

lemma split_ws_spaces:
  assumes "\<forall>c\<in>set s. is_space c"
  shows "filter (\<lambda>t. t \<noteq> []) (split_ws s) = []"
proof (cases s)
  case Nil
  then show ?thesis by (subst split_ws.simps) simp
next
  case (Cons c rest)
  with assms have c: "is_space c" and rest: "dropWhile is_space rest = []" by auto
  have "split_ws s = [[], []]"
    by (subst split_ws.simps, simp add: Cons c rest, subst split_ws.simps, simp)
  then show ?thesis by simp
qed

lemma tokenize_spaces: "\<forall>c\<in>set q. is_space c \<Longrightarrow> tokenize q = []"
  unfolding tokenize_def by (rule split_ws_spaces) (simp add: toLowerCase_def is_space_lower_unit)

section \<open>The score\<close>

lemma score_term_points:
  "score_term nm desc tgs t a =
     a + (name_points nm t + tag_points tgs t + description_points desc t)"
  by (auto simp add: score_term_def name_points_def tag_points_def description_points_def
      startsWith_prefix includes_sublist list_ex_iff Let_def)

lemma fold_score_term:
  "fold (score_term nm desc tgs) ts a =
     a + (\<Sum>t\<leftarrow>ts. name_points nm t + tag_points tgs t + description_points desc t)"
  by (induction ts arbitrary: a) (simp_all add: score_term_points)

lemma scoreSkill_sum: "scoreSkill sk terms = (\<Sum>t\<leftarrow>terms. token_points sk (toLowerCase t))"
  by (simp add: scoreSkill_def fold_score_term token_points_def Let_def comp_def)

text \<open>
  C1. The score of a record is the sum, over the terms, of the weights of the
  specification for the lower-cased term: 100, else 60, else 40 for the name (equal,
  prefix, substring), independently 30, else 20 for the tags (equal, prefix), and
  independently 10 for the description (substring). The tokens of a query are lower case
  already, so the sum is over the tokens themselves. The query \<open>docker\<close> scores 60 against
  a record named \<open>docker-compose\<close> without tags and description.
\<close>

theorem scoreSkill_is_sum_of_weights:
  "scoreSkill sk terms = (\<Sum>t\<leftarrow>terms. token_points sk (toLowerCase t))
   \<and> scoreSkill sk (tokenize q) = (\<Sum>t\<leftarrow>tokenize q. token_points sk t)
   \<and> token_points sk t =
       (if toLowerCase (name sk) = t then 100
        else if prefix t (toLowerCase (name sk)) then 60
        else if sublist t (toLowerCase (name sk)) then 40 else 0)
       + (if t \<in> set (map toLowerCase (case tags sk of None \<Rightarrow> [] | Some ts \<Rightarrow> ts)) then 30
          else if (\<exists>g. g \<in> set (map toLowerCase (case tags sk of None \<Rightarrow> [] | Some ts \<Rightarrow> ts))
                    \<and> prefix t g) then 20 else 0)
       + (if sublist t (toLowerCase (case description sk of None \<Rightarrow> [] | Some d \<Rightarrow> d))
          then 10 else 0)
   \<and> scoreSkill
        \<lparr>name = ''docker-compose'', description = None, source = ''github:x/y'', tags = None,
         version = ''1.0.0'', verified = False, registry = None\<rparr>
        (tokenize ''docker'') = 60"
proof -
  have "(\<Sum>t\<leftarrow>tokenize q. token_points sk (toLowerCase t)) = (\<Sum>t\<leftarrow>tokenize q. token_points sk t)"
    by (rule arg_cong[where f=sum_list]) (simp add: tokenize_lower cong: map_cong)
  then have "scoreSkill sk (tokenize q) = (\<Sum>t\<leftarrow>tokenize q. token_points sk t)"
    by (simp add: scoreSkill_sum)
  moreover have "scoreSkill
        \<lparr>name = ''docker-compose'', description = None, source = ''github:x/y'', tags = None,
         version = ''1.0.0'', verified = False, registry = None\<rparr>
        (tokenize ''docker'') = 60"
    by code_simp
  moreover have "token_points sk t =
       (if toLowerCase (name sk) = t then 100
        else if prefix t (toLowerCase (name sk)) then 60
        else if sublist t (toLowerCase (name sk)) then 40 else 0)
       + (if t \<in> set (map toLowerCase (case tags sk of None \<Rightarrow> [] | Some ts \<Rightarrow> ts)) then 30
          else if (\<exists>g. g \<in> set (map toLowerCase (case tags sk of None \<Rightarrow> [] | Some ts \<Rightarrow> ts))
                    \<and> prefix t g) then 20 else 0)
       + (if sublist t (toLowerCase (case description sk of None \<Rightarrow> [] | Some d \<Rightarrow> d))
          then 10 else 0)"
    unfolding token_points_def name_points_def tag_points_def description_points_def ..
  ultimately show ?thesis
    using scoreSkill_sum by blast
qed

section \<open>The empty query\<close>

text \<open>
  C5. A query that is empty or made of whitespace only has no tokens, and
  \<open>searchSkills\<close> returns the empty list for it, whatever the index (even one that is
  not an index object) and the limit.
\<close>

theorem blank_query_gives_no_results:
  assumes "\<forall>c\<in>set query. is_space c"
  shows "tokenize query = [] \<and> searchSkills idx query options = Inr []"
  using assms by (simp add: tokenize_spaces searchSkills_def)

theorem blank_query_gives_no_results_witness:
  "tokenize [CHR '' '', CHR 0x09, CHR '' ''] = []
   \<and> searchSkills JNull [CHR '' '', CHR 0x09, CHR '' ''] \<lparr>rebuild = False, online = False, limit = None\<rparr>
       = Inr []
   \<and> searchSkills JNull [] \<lparr>rebuild = False, online = False, limit = Some 3\<rparr> = Inr []"
proof -
  have a: "\<forall>c\<in>set [CHR '' '', CHR 0x09, CHR '' '']. is_space c"
    by (simp add: is_space_def)
  have b: "\<forall>c\<in>set ([]::string). is_space c"
    by simp
  show ?thesis
    using blank_query_gives_no_results [OF a, of JNull "\<lparr>rebuild = False, online = False, limit = None\<rparr>"]
      blank_query_gives_no_results [OF b, of JNull "\<lparr>rebuild = False, online = False, limit = Some 3\<rparr>"]
    by simp
qed

section \<open>Sorting and ranking\<close>

lemma mset_insert_sorted: "mset (insert_sorted cmp x ys) = add_mset x (mset ys)"
  by (induction ys) simp_all

lemma mset_fold_insert_sorted: "mset (fold (insert_sorted cmp) xs acc) = mset xs + mset acc"
  by (induction xs arbitrary: acc) (simp_all add: mset_insert_sorted)

lemma mset_js_sort: "mset (js_sort cmp xs) = mset xs"
  by (simp add: js_sort_def mset_fold_insert_sorted)

lemma set_insert_sorted: "set (insert_sorted cmp x ys) = insert x (set ys)"
  using mset_insert_sorted [of cmp x ys, THEN arg_cong, of set_mset] by simp

lemma sorted_insert_sorted:
  assumes total: "\<And>a b. 0 \<le> cmp a b \<Longrightarrow> cmp b a \<le> 0"
    and trans: "\<And>a b c. cmp a b \<le> 0 \<Longrightarrow> cmp b c \<le> 0 \<Longrightarrow> cmp a c \<le> 0"
    and sorted: "sorted_wrt (\<lambda>a b. cmp a b \<le> 0) ys"
  shows "sorted_wrt (\<lambda>a b. cmp a b \<le> 0) (insert_sorted cmp x ys)"
  using sorted
proof (induction ys)
  case Nil
  then show ?case by simp
next
  case (Cons y ys)
  show ?case
  proof (cases "cmp x y < 0")
    case True
    then have "cmp x y \<le> 0" by simp
    with Cons.prems have "\<forall>z\<in>set ys. cmp x z \<le> 0"
      by (auto intro: trans)
    with True Cons.prems show ?thesis by simp
  next
    case False
    then have "cmp y x \<le> 0" by (simp add: total)
    with False Cons show ?thesis
      by (simp add: set_insert_sorted)
  qed
qed

lemma sorted_fold_insert_sorted:
  assumes total: "\<And>a b. 0 \<le> cmp a b \<Longrightarrow> cmp b a \<le> 0"
    and trans: "\<And>a b c. cmp a b \<le> 0 \<Longrightarrow> cmp b c \<le> 0 \<Longrightarrow> cmp a c \<le> 0"
  shows "sorted_wrt (\<lambda>a b. cmp a b \<le> 0) acc
    \<Longrightarrow> sorted_wrt (\<lambda>a b. cmp a b \<le> 0) (fold (insert_sorted cmp) xs acc)"
proof (induction xs arbitrary: acc)
  case Nil
  then show ?case by simp
next
  case (Cons x xs)
  have "sorted_wrt (\<lambda>a b. cmp a b \<le> 0) (insert_sorted cmp x acc)"
    using total trans Cons.prems by (rule sorted_insert_sorted)
  then show ?case
    by (simp add: Cons.IH)
qed

lemma sorted_js_sort:
  assumes "\<And>a b. 0 \<le> cmp a b \<Longrightarrow> cmp b a \<le> 0"
    and "\<And>a b c. cmp a b \<le> 0 \<Longrightarrow> cmp b c \<le> 0 \<Longrightarrow> cmp a c \<le> 0"
  shows "sorted_wrt (\<lambda>a b. cmp a b \<le> 0) (js_sort cmp xs)"
proof -
  have "sorted_wrt (\<lambda>a b. cmp a b \<le> 0) []"
    by simp
  with assms show ?thesis
    unfolding js_sort_def by (rule sorted_fold_insert_sorted)
qed

lemma sorted_js_sort_key: "sorted_wrt (\<lambda>a b. k b \<le> k a) (js_sort (\<lambda>a b. k b - k a) xs)"
  using sorted_js_sort [of "\<lambda>a b. k b - (k a :: int)" xs] by simp

lemma filter_insert_sorted_key:
  fixes k :: "'a \<Rightarrow> int"
  assumes "sorted_wrt (\<lambda>a b. k b \<le> k a) ys"
  shows "filter (\<lambda>y. k y = v) (insert_sorted (\<lambda>a b. k b - k a) x ys)
           = filter (\<lambda>y. k y = v) ys @ (if k x = v then [x] else [])"
  using assms
proof (induction ys)
  case Nil
  then show ?case by simp
next
  case (Cons y ys)
  show ?case
  proof (cases "k y < k x")
    case True
    with Cons.prems have "\<forall>z\<in>set (y # ys). k z < k x" by auto
    then have "k x = v \<Longrightarrow> filter (\<lambda>y. k y = v) (y # ys) = []"
      by (auto simp add: filter_empty_conv)
    with True show ?thesis by auto
  next
    case False
    with Cons show ?thesis by simp
  qed
qed

lemma filter_fold_insert_sorted_key:
  fixes k :: "'a \<Rightarrow> int"
  shows "sorted_wrt (\<lambda>a b. k b \<le> k a) acc \<Longrightarrow>
    filter (\<lambda>y. k y = v) (fold (insert_sorted (\<lambda>a b. k b - k a)) xs acc)
      = filter (\<lambda>y. k y = v) acc @ filter (\<lambda>y. k y = v) xs"
proof (induction xs arbitrary: acc)
  case Nil
  then show ?case by simp
next
  case (Cons x xs)
  have "sorted_wrt (\<lambda>a b. k b \<le> k a) (insert_sorted (\<lambda>a b. k b - k a) x acc)"
    using sorted_insert_sorted [of "\<lambda>a b. k b - k a" acc x] Cons.prems by simp
  then show ?case
    using Cons.prems by (simp add: Cons.IH filter_insert_sorted_key)
qed

lemma filter_js_sort_key:
  fixes k :: "'a \<Rightarrow> int"
  shows "filter (\<lambda>y. k y = v) (js_sort (\<lambda>a b. k b - k a) xs) = filter (\<lambda>y. k y = v) xs"
  by (simp add: js_sort_def filter_fold_insert_sorted_key)

lemma token_points_nonneg: "0 \<le> token_points sk t"
  by (simp add: token_points_def name_points_def tag_points_def description_points_def)

lemma scoreSkill_nonneg: "0 \<le> scoreSkill sk terms"
  unfolding scoreSkill_sum by (rule sum_list_nonneg) (auto simp add: token_points_nonneg)

lemma score_with_score: "score (with_score sk n) = n"
  by (simp add: with_score_def)

lemma slice0_nonneg: "0 \<le> lmt \<Longrightarrow> slice0 xs lmt = take (nat lmt) xs"
  by (auto simp add: slice0_def Let_def min_def)

lemma slice0_neg: "lmt < 0 \<Longrightarrow> slice0 xs lmt = take (length xs - nat (- lmt)) xs"
  by (auto simp add: slice0_def Let_def max_def intro!: arg_cong2[where f=take])

text \<open>
  C6 (amended). For an index with a list of skills, any query and a limit that is not
  negative (10 when none is given), \<open>searchSkills\<close> returns the first \<open>limit\<close> records of
  a ranking that holds exactly the records whose score is not 0, in descending order of
  score, the records of equal score in the order of the index. So it returns at most
  \<open>limit\<close> records, and none that it leaves out scores higher than one it returns.
\<close>

theorem searchSkills_ranks_and_truncates:
  fixes d :: index and sks :: "skill list" and query :: string
  defines "scored \<equiv> map (\<lambda>sk. with_score sk (scoreSkill sk (tokenize query))) sks"
  assumes lmt: "lmt = (case limit options of None \<Rightarrow> 10 | Some l \<Rightarrow> l)" and "0 \<le> lmt"
    and skills: "skills d = Some sks"
  shows "\<exists>ranked.
      mset ranked = mset (filter (\<lambda>s. score s \<noteq> 0) scored)
    \<and> sorted_wrt (\<lambda>a b. score b \<le> score a) ranked
    \<and> (\<forall>v. filter (\<lambda>s. score s = v) ranked = filter (\<lambda>s. score s = v) (filter (\<lambda>s. score s \<noteq> 0) scored))
    \<and> searchSkills (JDoc d) query options = Inr (take (nat lmt) ranked)
    \<and> int (length (take (nat lmt) ranked)) \<le> lmt
    \<and> (\<forall>a\<in>set (take (nat lmt) ranked). \<forall>b\<in>set (drop (nat lmt) ranked). score b \<le> score a)"
proof -
  define cands where "cands = filter (\<lambda>s. 0 < score s) scored"
  define ranked where "ranked = js_sort (\<lambda>a b. score b - score a) cands"
  have "\<forall>s\<in>set scored. 0 \<le> score s"
    by (auto simp add: scored_def score_with_score scoreSkill_nonneg)
  then have cands: "cands = filter (\<lambda>s. score s \<noteq> 0) scored"
    unfolding cands_def by (intro filter_cong) auto
  have sorted: "sorted_wrt (\<lambda>a b. score b \<le> score a) ranked"
    unfolding ranked_def by (rule sorted_js_sort_key)
  have "sorted_wrt (\<lambda>a b. score b \<le> score a) (take (nat lmt) ranked @ drop (nat lmt) ranked)"
    using sorted by simp
  then have top: "\<forall>a\<in>set (take (nat lmt) ranked). \<forall>b\<in>set (drop (nat lmt) ranked). score b \<le> score a"
    unfolding sorted_wrt_append by blast
  have "searchSkills (JDoc d) query options = Inr (slice0 ranked lmt)"
  proof (cases "tokenize query = []")
    case True
    then have "ranked = []"
      by (simp add: ranked_def cands_def scored_def js_sort_def scoreSkill_def score_with_score)
    with True show ?thesis
      by (simp add: searchSkills_def slice0_def)
  next
    case False
    then show ?thesis
      by (simp add: searchSkills_def skills lmt ranked_def cands_def scored_def Let_def)
  qed
  then have "searchSkills (JDoc d) query options = Inr (take (nat lmt) ranked)"
    using \<open>0 \<le> lmt\<close> by (simp add: slice0_nonneg)
  moreover have "mset ranked = mset (filter (\<lambda>s. score s \<noteq> 0) scored)"
    by (simp add: ranked_def mset_js_sort cands)
  moreover have "\<forall>v. filter (\<lambda>s. score s = v) ranked
      = filter (\<lambda>s. score s = v) (filter (\<lambda>s. score s \<noteq> 0) scored)"
    unfolding ranked_def cands [symmetric] by (simp add: filter_js_sort_key)
  moreover have "int (length (take (nat lmt) ranked)) \<le> lmt"
    using \<open>0 \<le> lmt\<close> by simp
  ultimately show ?thesis
    using sorted top by blast
qed


theorem searchSkills_ranks_and_truncates_witness:
  "searchSkills
     (JDoc \<lparr>index_version = ''1.0.0'', updated_at = Some 0, registries = Map.empty,
            skills = Some
              [catalog_entry ''commit-wizard'' ''Smart git commits'' [''git'', ''commits''],
               catalog_entry ''test-whisperer'' ''Generate comprehensive test suites''
                 [''testing'', ''jest''],
               catalog_entry ''webapp-testing'' ''Automated testing for web applications''
                 [''testing'', ''web'']]\<rparr>)
     ''testing'' \<lparr>rebuild = False, online = False, limit = Some 1\<rparr>
   = Inr [with_score
           (catalog_entry ''webapp-testing'' ''Automated testing for web applications''
             [''testing'', ''web'']) 80]
   \<and> (\<exists>ranked. sorted_wrt (\<lambda>a b. score b \<le> score a) ranked
        \<and> searchSkills
             (JDoc \<lparr>index_version = ''1.0.0'', updated_at = Some 0, registries = Map.empty,
                    skills = Some
                      [catalog_entry ''commit-wizard'' ''Smart git commits'' [''git'', ''commits''],
                       catalog_entry ''test-whisperer'' ''Generate comprehensive test suites''
                         [''testing'', ''jest''],
                       catalog_entry ''webapp-testing'' ''Automated testing for web applications''
                         [''testing'', ''web'']]\<rparr>)
             ''testing'' \<lparr>rebuild = False, online = False, limit = Some 1\<rparr>
           = Inr (take 1 ranked))"
proof -
  let ?sks = "[catalog_entry ''commit-wizard'' ''Smart git commits'' [''git'', ''commits''],
               catalog_entry ''test-whisperer'' ''Generate comprehensive test suites''
                 [''testing'', ''jest''],
               catalog_entry ''webapp-testing'' ''Automated testing for web applications''
                 [''testing'', ''web'']]"
  let ?d = "\<lparr>index_version = ''1.0.0'', updated_at = Some 0, registries = Map.empty,
            skills = Some ?sks\<rparr>"
  let ?o = "\<lparr>rebuild = False, online = False, limit = Some 1\<rparr>"
  have a: "(1::int) = (case limit ?o of None \<Rightarrow> 10 | Some l \<Rightarrow> l)" by simp
  have b: "(0::int) \<le> 1" by simp
  have c: "skills ?d = Some ?sks" by simp
  have "searchSkills (JDoc ?d) ''testing'' ?o
      = Inr [with_score
              (catalog_entry ''webapp-testing'' ''Automated testing for web applications''
                [''testing'', ''web'']) 80]"
    by code_simp
  moreover have "\<exists>ranked. sorted_wrt (\<lambda>a b. score b \<le> score a) ranked
        \<and> searchSkills (JDoc ?d) ''testing'' ?o = Inr (take 1 ranked)"
    using searchSkills_ranks_and_truncates [OF a b c, of "''testing''"] by auto
  ultimately show ?thesis by blast
qed

text \<open>
  With the limit \<open>-1\<close>, \<open>slice(0, -1)\<close> drops the last record of the ranking: of the two
  records that match \<open>testing\<close>, one is returned, which is more than the limit.
\<close>

theorem negative_limit_counterexample:
  "searchSkills
     (JDoc \<lparr>index_version = ''1.0.0'', updated_at = Some 0, registries = Map.empty,
            skills = Some
              [catalog_entry ''commit-wizard'' ''Smart git commits'' [''git'', ''commits''],
               catalog_entry ''test-whisperer'' ''Generate comprehensive test suites''
                 [''testing'', ''jest''],
               catalog_entry ''webapp-testing'' ''Automated testing for web applications''
                 [''testing'', ''web'']]\<rparr>)
     ''testing'' \<lparr>rebuild = False, online = False, limit = Some (- 1)\<rparr>
   = Inr [with_score
           (catalog_entry ''webapp-testing'' ''Automated testing for web applications''
             [''testing'', ''web'']) 80]
   \<and> \<not> int (length
             [with_score
               (catalog_entry ''webapp-testing'' ''Automated testing for web applications''
                 [''testing'', ''web'']) 80]) \<le> - 1"
  by code_simp

section \<open>Loading and merging\<close>

lemma push_new_filter: "push_new E rs sks = sks @ filter (\<lambda>s. name s \<notin> E) rs"
  by (induction rs arbitrary: sks) simp_all

lemma merge_remote_eq:
  "merge_remote nm (info, rsks) (regs, sks)
     = (regs(nm \<mapsto> info), sks @ filter (\<lambda>s. name s \<notin> set (map name sks)) rsks)"
  by (simp add: merge_remote_def push_new_filter)



lemma distinct_append_new:
  assumes "distinct (map f xs)" and "distinct (map f ys)"
  shows "distinct (map f (xs @ filter (\<lambda>y. f y \<notin> set (map f xs)) ys))"
proof -
  let ?new = "filter (\<lambda>y. f y \<notin> set (map f xs)) ys"
  have new: "distinct (map f ?new)"
    using assms(2) by (rule distinct_map_filter)
  have disj: "set (map f xs) \<inter> set (map f ?new) = {}"
  proof (rule ccontr)
    assume "set (map f xs) \<inter> set (map f ?new) \<noteq> {}"
    then obtain v where v1: "v \<in> set (map f xs)" and v2: "v \<in> set (map f ?new)"
      by blast
    from v2 obtain y where y: "y \<in> set ?new" and v: "v = f y"
      by auto
    from y have "f y \<notin> set (map f xs)"
      by simp
    with v1 v show False
      by simp
  qed
  show ?thesis
    unfolding map_append distinct_append using assms(1) new disj by blast
qed

lemma merge_remotes_distinct:
  assumes "merge_remotes h now urls (regs, sks) = Some (regs', sks')"
    and "distinct (map name sks)"
    and "\<forall>(nm, url)\<in>set urls. \<forall>r. fetchRemoteRegistry h now url nm = Some (Some r) \<longrightarrow> distinct (map name (snd r))"
  shows "distinct (map name sks')"
  using assms
proof (induction urls arbitrary: regs sks)
  case Nil
  then show ?case by simp
next
  case (Cons u urls)
  obtain nm url where u: "u = (nm, url)" by (cases u)
  from Cons.prems(1) u obtain r where r: "fetchRemoteRegistry h now url nm = Some r"
    by (auto split: option.splits)
  have rest: "\<forall>(nm, url)\<in>set urls. \<forall>r. fetchRemoteRegistry h now url nm = Some (Some r) \<longrightarrow> distinct (map name (snd r))"
    using Cons.prems(3) by simp
  show ?case
  proof (cases r)
    case None
    with Cons.prems(1) u r have "merge_remotes h now urls (regs, sks) = Some (regs', sks')" by simp
    then show ?thesis using Cons.prems(2) rest by (rule Cons.IH)
  next
    case (Some remote)
    obtain info rsks where remote: "remote = (info, rsks)" by (cases remote)
    let ?new = "filter (\<lambda>s. name s \<notin> set (map name sks)) rsks"
    have "distinct (map name rsks)"
      using Cons.prems(3) u r Some remote by auto
    with Cons.prems(2) have d: "distinct (map name (sks @ ?new))"
      by (rule distinct_append_new)
    from Cons.prems(1) u r Some remote
    have "merge_remotes h now urls (regs(nm \<mapsto> info), sks @ ?new) = Some (regs', sks')"
      by (simp add: merge_remote_eq)
    then show ?thesis using d rest by (rule Cons.IH)
  qed
qed

lemma built_skillsD:
  assumes "built_skills h e w = Some sks"
  obtains regs merged where
    "merge_remotes h (clock w) (remoteUrls h) (loadLocalRegistries h (clock w)) = Some (regs, merged)"
    and "sks = js_sort (\<lambda>a b. localeCompare h (name a) (name b)) merged"
proof (cases "merge_remotes h (clock w) (remoteUrls h) (loadLocalRegistries h (clock w))")
  case None
  with assms show ?thesis
    by (simp add: built_skills_def rebuild_index_def)
next
  case (Some l)
  obtain regs merged where l: "l = (regs, merged)" by (cases l)
  from assms have "sks = js_sort (\<lambda>a b. localeCompare h (name a) (name b)) merged"
    by (simp add: built_skills_def rebuild_index_def Some l Let_def split: if_splits)
  with Some l that show ?thesis by blast
qed

section \<open>Collations order consistently\<close>

lemma code_unit_compare_flip: "code_unit_compare b a = - code_unit_compare a b"
  by (induction a b rule: code_unit_compare.induct) auto

lemma code_unit_compare_zero: "code_unit_compare a b = 0 \<Longrightarrow> a = b"
  by (induction a b rule: code_unit_compare.induct) (auto split: if_splits)

lemma code_unit_compare_refl: "code_unit_compare a a = 0"
  by (induction a) auto

lemma code_unit_compare_trans:
  "code_unit_compare a b \<le> 0 \<Longrightarrow> code_unit_compare b c \<le> 0 \<Longrightarrow> code_unit_compare a c \<le> 0"
proof (induction a b arbitrary: c rule: code_unit_compare.induct)
  case 1
  then show ?case by simp
next
  case (2 d t)
  then show ?case by (cases c) simp_all
next
  case (3 c' s)
  then show ?case by simp
next
  case (4 x s y t)
  show ?case
  proof (cases c)
    case Nil
    with 4 show ?thesis by (simp split: if_splits)
  next
    case (Cons z u)
    with "4.prems" "4.IH" [of u] show ?thesis
      by (auto split: if_splits)
  qed
qed

lemma consistent_code_unit_compare: "consistent code_unit_compare"
  unfolding consistent_def
proof (intro conjI allI impI)
  fix a b
  assume "0 \<le> code_unit_compare a b"
  then show "code_unit_compare b a \<le> 0"
    using code_unit_compare_flip [of b a] by simp
next
  fix a b c
  assume "code_unit_compare a b \<le> 0 \<and> code_unit_compare b c \<le> 0"
  then show "code_unit_compare a c \<le> 0"
    using code_unit_compare_trans [of a b c] by simp
qed

lemma consistent_collate_letters: "consistent collate_letters"
proof -
  let ?L = "\<lambda>a b. code_unit_compare (toLowerCase a) (toLowerCase b)"
  have total: "collate_letters b a \<le> 0" if "0 \<le> collate_letters a b" for a b
  proof (cases "?L a b = 0")
    case True
    then have "?L b a = 0" using code_unit_compare_flip [of "toLowerCase b" "toLowerCase a"] by simp
    with True that show ?thesis
      using code_unit_compare_flip [of a b] by (simp add: collate_letters_def)
  next
    case False
    with that have "0 < ?L a b" by (simp add: collate_letters_def)
    then have "?L b a < 0" using code_unit_compare_flip [of "toLowerCase b" "toLowerCase a"] by simp
    then show ?thesis by (simp add: collate_letters_def)
  qed
  have trans: "collate_letters a c \<le> 0"
    if ab: "collate_letters a b \<le> 0" and bc: "collate_letters b c \<le> 0" for a b c
  proof -
    from ab have Lab: "?L a b \<le> 0" by (simp add: collate_letters_def Let_def split: if_splits)
    from bc have Lbc: "?L b c \<le> 0" by (simp add: collate_letters_def Let_def split: if_splits)
    from Lab Lbc have Lac: "?L a c \<le> 0" by (rule code_unit_compare_trans)
    show ?thesis
    proof (cases "?L a c = 0")
      case False
      with Lac show ?thesis by (simp add: collate_letters_def)
    next
      case True
      then have eq: "toLowerCase a = toLowerCase c" by (rule code_unit_compare_zero)
      from Lbc eq have "?L b a \<le> 0" by simp
      then have "0 \<le> ?L a b" using code_unit_compare_flip [of "toLowerCase b" "toLowerCase a"] by simp
      with Lab have ab0: "?L a b = 0" by simp
      then have "toLowerCase a = toLowerCase b" by (rule code_unit_compare_zero)
      with eq have bc0: "?L b c = 0" by (simp add: code_unit_compare_refl)
      from ab ab0 have "code_unit_compare b a \<le> 0" by (simp add: collate_letters_def)
      moreover from bc bc0 have "code_unit_compare c b \<le> 0" by (simp add: collate_letters_def)
      ultimately have "code_unit_compare c a \<le> 0" by (rule code_unit_compare_trans [rotated])
      with True show ?thesis by (simp add: collate_letters_def)
    qed
  qed
  show ?thesis
    unfolding consistent_def using total trans by blast
qed

section \<open>The merged index\<close>

text \<open>
  C2 (amended). The skills of the built index hold at most one record per name when the
  records of the local registries, taken together, have distinct names and the records
  of every remote registry that was fetched have distinct names.
\<close>

theorem built_skills_distinct_names:
  assumes built: "built_skills h e w = Some sks"
    and locals: "distinct (map name (snd (loadLocalRegistries h (clock w))))"
    and remotes: "\<forall>(nm, url)\<in>set (remoteUrls h). \<forall>r.
        fetchRemoteRegistry h (clock w) url nm = Some (Some r) \<longrightarrow> distinct (map name (snd r))"
  shows "distinct (map name sks)"
proof -
  from built obtain regs merged where
    merged: "merge_remotes h (clock w) (remoteUrls h) (loadLocalRegistries h (clock w)) = Some (regs, merged)"
    and sks: "sks = js_sort (\<lambda>a b. localeCompare h (name a) (name b)) merged"
    by (rule built_skillsD)
  obtain lregs lsks where l: "loadLocalRegistries h (clock w) = (lregs, lsks)"
    by (cases "loadLocalRegistries h (clock w)")
  from locals have "distinct (map name lsks)"
    by (simp add: l)
  with merged [unfolded l] have "distinct (map name merged)"
    using remotes by (rule merge_remotes_distinct)
  moreover have "mset (map name sks) = mset (map name merged)"
    by (simp add: sks mset_js_sort)
  then have "distinct (map name sks) = distinct (map name merged)"
    by (rule mset_eq_imp_distinct_iff)
  ultimately show ?thesis
    by simp
qed


text \<open>
  C7 (amended). With a collation \<open>localeCompare\<close> that orders consistently, the skills of
  the built index are the merged records, sorted by name in ascending order of that
  collation, whatever the order in which the sources were loaded. They are in the plain
  order of character codes where the collation implies that order.
\<close>

theorem built_skills_sorted_by_collation:
  assumes built: "built_skills h e w = Some sks" and cons: "consistent (localeCompare h)"
  shows "sorted_wrt (\<lambda>a b. localeCompare h (name a) (name b) \<le> 0) sks
    \<and> (\<exists>regs merged.
          merge_remotes h (clock w) (remoteUrls h) (loadLocalRegistries h (clock w)) = Some (regs, merged)
          \<and> mset sks = mset merged)
    \<and> ((\<forall>a b. localeCompare h a b \<le> 0 \<longrightarrow> code_unit_compare a b \<le> 0)
         \<longrightarrow> sorted_wrt (\<lambda>a b. code_unit_compare (name a) (name b) \<le> 0) sks)"
proof -
  from built obtain regs merged where
    merged: "merge_remotes h (clock w) (remoteUrls h) (loadLocalRegistries h (clock w)) = Some (regs, merged)"
    and sks: "sks = js_sort (\<lambda>a b. localeCompare h (name a) (name b)) merged"
    by (rule built_skillsD)
  let ?cmp = "\<lambda>a b. localeCompare h (name a) (name b)"
  have total: "\<And>a b. 0 \<le> ?cmp a b \<Longrightarrow> ?cmp b a \<le> 0"
    using cons unfolding consistent_def by blast
  have trans: "\<And>a b c. ?cmp a b \<le> 0 \<Longrightarrow> ?cmp b c \<le> 0 \<Longrightarrow> ?cmp a c \<le> 0"
    using cons unfolding consistent_def by blast
  have sorted: "sorted_wrt (\<lambda>a b. ?cmp a b \<le> 0) sks"
    unfolding sks using total trans by (rule sorted_js_sort)
  have "sorted_wrt (\<lambda>a b. code_unit_compare (name a) (name b) \<le> 0) sks"
    if "\<forall>a b. localeCompare h a b \<le> 0 \<longrightarrow> code_unit_compare a b \<le> 0"
    using sorted that by (auto elim: sorted_wrt_mono_rel [rotated])
  moreover have "mset sks = mset merged"
    by (simp add: sks mset_js_sort)
  ultimately show ?thesis
    using sorted merged by blast
qed

section \<open>The merged index of the example host\<close>

lemma example_built:
  "built_skills example_host tick first_run
     = Some [stamp ''core'' (catalog_entry ''commit-wizard'' ''Smart git commits'' [''git'', ''commits'']),
             stamp ''community'' (catalog_entry ''doc-scribe'' ''Generate documentation'' [''documentation'']),
             stamp ''core'' (catalog_entry ''evolve'' ''Genetic algorithm optimizer'' [''optimization'', ''rust''])]"
  by code_simp

lemma example_local:
  "snd (loadLocalRegistries example_host (clock first_run)) = map (stamp ''core'') core_skills"
  by code_simp

lemma example_remote:
  "fetchRemoteRegistry example_host (clock first_run) ''https://example.org/community.json'' ''community''
     = Some (Some (\<lparr>reg_source = ''https://example.org/community.json'', fetched_at = 0\<rparr>,
                   map (stamp ''community'') community_skills))"
  by code_simp

theorem built_skills_distinct_names_witness:
  "built_skills example_host tick first_run
     = Some [stamp ''core'' (catalog_entry ''commit-wizard'' ''Smart git commits'' [''git'', ''commits'']),
             stamp ''community'' (catalog_entry ''doc-scribe'' ''Generate documentation'' [''documentation'']),
             stamp ''core'' (catalog_entry ''evolve'' ''Genetic algorithm optimizer'' [''optimization'', ''rust''])]
   \<and> distinct (map name
        [stamp ''core'' (catalog_entry ''commit-wizard'' ''Smart git commits'' [''git'', ''commits'']),
         stamp ''community'' (catalog_entry ''doc-scribe'' ''Generate documentation'' [''documentation'']),
         stamp ''core'' (catalog_entry ''evolve'' ''Genetic algorithm optimizer'' [''optimization'', ''rust''])])"
proof -
  have locals: "distinct (map name (snd (loadLocalRegistries example_host (clock first_run))))"
    unfolding example_local by code_simp
  have "distinct (map name (map (stamp ''community'') community_skills))"
    by code_simp
  then have remotes: "\<forall>(nm, url)\<in>set (remoteUrls example_host). \<forall>r.
      fetchRemoteRegistry example_host (clock first_run) url nm = Some (Some r)
        \<longrightarrow> distinct (map name (snd r))"
    by (auto simp add: example_host_def example_remote [unfolded example_host_def])
  show ?thesis
    using built_skills_distinct_names [OF example_built locals remotes] example_built by simp
qed

text \<open>
  Two local registries that both hold \<open>evolve\<close> give an index with two records of that
  name; so does a remote registry that holds \<open>doc-scribe\<close> twice.
\<close>

theorem duplicate_names_counterexample:
  "map_option (map name)
     (built_skills
        (example_host\<lparr>registry_files :=
           Some [(''core.json'', Some (Object (Array core_skills))),
                 (''extra.json'',
                  Some (Object (Array [catalog_entry ''evolve'' ''Another evolve'' []])))],
           remoteUrls := []\<rparr>)
        tick first_run)
     = Some [''commit-wizard'', ''evolve'', ''evolve'']
   \<and> \<not> distinct [''commit-wizard'', ''evolve'', ''evolve'']
   \<and> map_option (map name)
        (built_skills
           (example_host\<lparr>registry_files := None,
              net := serve ''https://example.org/community.json''
                (Object (Array [catalog_entry ''doc-scribe'' ''One'' [],
                                catalog_entry ''doc-scribe'' ''Two'' []]))\<rparr>)
           tick first_run)
     = Some [''doc-scribe'', ''doc-scribe'']
   \<and> \<not> distinct [''doc-scribe'', ''doc-scribe'']"
  by code_simp


theorem built_skills_sorted_by_collation_witness:
  "consistent (localeCompare example_host)
   \<and> sorted_wrt (\<lambda>a b. code_unit_compare (name a) (name b) \<le> 0)
        [stamp ''core'' (catalog_entry ''commit-wizard'' ''Smart git commits'' [''git'', ''commits'']),
         stamp ''community'' (catalog_entry ''doc-scribe'' ''Generate documentation'' [''documentation'']),
         stamp ''core'' (catalog_entry ''evolve'' ''Genetic algorithm optimizer'' [''optimization'', ''rust''])]"
proof -
  have c: "consistent (localeCompare example_host)"
    by (simp add: example_host_def consistent_code_unit_compare)
  have l: "localeCompare example_host = code_unit_compare"
    by (simp add: example_host_def)
  from built_skills_sorted_by_collation [OF example_built c, THEN conjunct1]
  show ?thesis
    using c unfolding l by blast
qed

text \<open>
  With a collation that compares letters without regard to case first, \<open>commit-wizard\<close>
  comes before \<open>Docker\<close>, against the order of character codes.
\<close>

theorem collation_order_counterexample:
  "map_option (map name)
     (built_skills
        (example_host\<lparr>localeCompare := collate_letters,
           registry_files :=
             Some [(''core.json'',
                    Some (Object (Array [catalog_entry ''Docker'' ''Containers'' [],
                                         catalog_entry ''commit-wizard'' ''Smart git commits'' []])))],
           remoteUrls := []\<rparr>)
        tick first_run)
     = Some [''commit-wizard'', ''Docker'']
   \<and> \<not> code_unit_compare ''commit-wizard'' ''Docker'' \<le> 0"
  by code_simp

section \<open>The cache\<close>

lemma hours_lt: "(real_of_int x / (1000 * 60 * 60) < TTL_HOURS) = (x < 24 * 60 * 60 * 1000)"
proof -
  have "(real_of_int x / (1000 * 60 * 60) < 24) = (real_of_int x < 24 * (1000 * 60 * 60))"
    by (rule pos_divide_less_eq) simp
  also have "\<dots> = (real_of_int x < real_of_int (24 * 60 * 60 * 1000))"
    by simp
  also have "\<dots> = (x < 24 * 60 * 60 * 1000)"
    by (rule of_int_less_iff)
  finally show ?thesis
    by (simp add: TTL_HOURS_def)
qed

lemma isIndexFresh_doc:
  assumes "cache w = Parsed (JDoc d)" and "updated_at d = Some t"
  shows "isIndexFresh w = (clock w - t < 24 * 60 * 60 * 1000)"
proof -
  have "isIndexFresh w = (real_of_int (clock w - t) / (1000 * 60 * 60) < TTL_HOURS)"
    unfolding isIndexFresh_def Let_def
    by (simp only: assms existsSync.simps read_json.simps date_updated_at.simps
        sum.case option.case not_True_eq_False if_False)
  then show ?thesis
    by (simp only: hours_lt)
qed

lemma isIndexFresh_iff:
  "isIndexFresh w =
     (\<exists>d t. cache w = Parsed (JDoc d) \<and> updated_at d = Some t \<and> clock w - t < 24 * 60 * 60 * 1000)"
proof (cases "cache w")
  case (Parsed doc)
  show ?thesis
  proof (cases doc)
    case (JDoc d)
    show ?thesis
    proof (cases "updated_at d")
      case None
      with Parsed JDoc show ?thesis by (simp add: isIndexFresh_def)
    next
      case (Some t)
      with Parsed JDoc isIndexFresh_doc [of w d t] show ?thesis by simp
    qed
  qed (simp_all add: isIndexFresh_def Parsed)
qed (simp_all add: isIndexFresh_def)

text \<open>
  C4. \<open>isIndexFresh\<close> is false when the cache file is missing, unreadable, not JSON,
  \<open>null\<close> or another value without the field, or has no valid date in \<open>updated_at\<close>;
  otherwise it is true exactly when the time since \<open>updated_at\<close> is less than 24 hours
  (in milliseconds). \<open>loadExistingIndex\<close> returns the parsed content, and \<open>null\<close>
  (never an error) when the file is missing, unreadable or not JSON. So an index of
  23 hours 59 minutes is fresh and one of 24 hours 1 minute is stale.
\<close>

theorem cache_freshness_and_load:
  "\<not> isIndexFresh (w\<lparr>cache := Missing\<rparr>)
   \<and> \<not> isIndexFresh (w\<lparr>cache := Unreadable\<rparr>)
   \<and> \<not> isIndexFresh (w\<lparr>cache := Malformed\<rparr>)
   \<and> \<not> isIndexFresh (w\<lparr>cache := Parsed JNull\<rparr>)
   \<and> \<not> isIndexFresh (w\<lparr>cache := Parsed (JOther b)\<rparr>)
   \<and> \<not> isIndexFresh (w\<lparr>cache := Parsed (JDoc (d\<lparr>updated_at := None\<rparr>))\<rparr>)
   \<and> isIndexFresh (w\<lparr>cache := Parsed (JDoc (d\<lparr>updated_at := Some t\<rparr>))\<rparr>)
       = (clock w - t < 24 * 60 * 60 * 1000)
   \<and> loadExistingIndex (w\<lparr>cache := Missing\<rparr>) = JNull
   \<and> loadExistingIndex (w\<lparr>cache := Unreadable\<rparr>) = JNull
   \<and> loadExistingIndex (w\<lparr>cache := Malformed\<rparr>) = JNull
   \<and> loadExistingIndex (w\<lparr>cache := Parsed doc\<rparr>) = doc
   \<and> isIndexFresh
        (w\<lparr>cache := Parsed (JDoc (d\<lparr>updated_at := Some (clock w - (23 * 60 + 59) * 60 * 1000)\<rparr>))\<rparr>)
   \<and> \<not> isIndexFresh
        (w\<lparr>cache := Parsed (JDoc (d\<lparr>updated_at := Some (clock w - (24 * 60 + 1) * 60 * 1000)\<rparr>))\<rparr>)"
  by (simp add: isIndexFresh_iff loadExistingIndex_def)

section \<open>Redirects\<close>




text \<open>What settles the promise, and what does not, at the first request and after a redirect.\<close>

lemma first_url_refused: "g (Some u) = Throws \<Longrightarrow> fetchUrl g u = Some (Inl Invalid_url)"
  unfolding fetchUrl_def by (subst get.simps) simp

lemma redirect_to_refused_location:
  assumes "g (Some u) = Response 302 (Some v) b" and "g (Some v) = Throws"
  shows "fetchUrl g u = None"
  unfolding fetchUrl_def using assms by (subst get.simps, simp, subst get.simps, simp)

lemma redirect_without_location:
  assumes "g (Some u) = Response 301 None b" and "g None = Silent"
  shows "fetchUrl g u = None"
  unfolding fetchUrl_def using assms by (subst get.simps, simp, subst get.simps, simp)

lemma no_answer: "g (Some u) = Silent \<Longrightarrow> fetchUrl g u = None"
  unfolding fetchUrl_def by (subst get.simps) simp







section \<open>The policy of the search\<close>

lemma fresh_truthy: "isIndexFresh w \<Longrightarrow> truthy (loadExistingIndex w)"
  by (auto simp add: isIndexFresh_iff loadExistingIndex_def)

lemma buildIndex_stale:
  "\<not> isIndexFresh (e w) \<Longrightarrow> buildIndex h e False w = rebuild_index h e (e w)"
  by (simp add: buildIndex_def Let_def)

lemma buildIndex_forced: "buildIndex h e True w = rebuild_index h e w"
  by (simp add: buildIndex_def)

text \<open>
  C9 (amended). In an environment where a cache that is not fresh does not become fresh
  by itself (no other process rewrites it during the call), the first part of \<open>search\<close>
  rebuilds the index when \<open>rebuild\<close> or \<open>online\<close> is set (without a look at the cache) or
  when \<open>isIndexFresh\<close> is false; otherwise it takes the index that \<open>loadExistingIndex\<close>
  returns, and when that is absent it rebuilds the index. The rebuilds after a look at the
  cache are calls of \<open>buildIndex\<close> without \<open>force\<close>, which checks the freshness again.
\<close>

theorem search_rebuild_policy:
  assumes stale_stays: "\<And>w. \<not> isIndexFresh w \<Longrightarrow> \<not> isIndexFresh (e w)"
  shows "obtain_index h e options w =
     (if rebuild options \<or> online options then rebuild_index h e w
      else if \<not> isIndexFresh (e w) then rebuild_index h e (e (e w))
      else if truthy (loadExistingIndex (e (e w)))
           then Some (Inr (loadExistingIndex (e (e w))), e (e w))
      else rebuild_index h e (e (e (e w))))"
proof (cases "rebuild options \<or> online options")
  case True
  then show ?thesis
    by (simp add: obtain_index_def buildIndex_forced)
next
  case False
  show ?thesis
  proof (cases "isIndexFresh (e w)")
    case stale: False
    then have "\<not> isIndexFresh (e (e w))"
      by (rule stale_stays)
    then have "buildIndex h e False (e w) = rebuild_index h e (e (e w))"
      by (rule buildIndex_stale)
    with False stale show ?thesis
      by (simp add: obtain_index_def Let_def)
  next
    case fresh: True
    show ?thesis
    proof (cases "truthy (loadExistingIndex (e (e w)))")
      case True
      with False fresh show ?thesis
        by (simp add: obtain_index_def Let_def)
    next
      case absent: False
      then have "\<not> isIndexFresh (e (e w))"
        using fresh_truthy by blast
      then have "\<not> isIndexFresh (e (e (e w)))"
        by (rule stale_stays)
      then have "buildIndex h e False (e (e w)) = rebuild_index h e (e (e (e w)))"
        by (rule buildIndex_stale)
      with False fresh absent show ?thesis
        by (simp add: obtain_index_def Let_def)
    qed
  qed
qed

lemma vanishing_cache_stale:
  assumes "\<not> isIndexFresh w"
  shows "\<not> isIndexFresh (vanishing_cache w)"
proof
  assume "isIndexFresh (vanishing_cache w)"
  then obtain d t where c: "cache (vanishing_cache w) = Parsed (JDoc d)"
    and u: "updated_at d = Some t"
    and a: "clock (vanishing_cache w) - t < 24 * 60 * 60 * 1000"
    unfolding isIndexFresh_iff by blast
  from c have "cache w = Parsed (JDoc d)"
    by (simp add: vanishing_cache_def split: if_splits)
  moreover from a have "clock w - t < 24 * 60 * 60 * 1000"
    by (simp add: vanishing_cache_def)
  ultimately have "isIndexFresh w"
    using u unfolding isIndexFresh_iff by blast
  with assms show False
    by simp
qed

lemma cached_run_fresh: "isIndexFresh (vanishing_cache cached_run)"
  by (simp add: isIndexFresh_iff vanishing_cache_def cached_run_def)

lemma cached_run_absent: "\<not> truthy (loadExistingIndex (vanishing_cache (vanishing_cache cached_run)))"
  by (simp add: loadExistingIndex_def vanishing_cache_def cached_run_def)

text \<open>
  The cache is fresh at the check and deleted before it is loaded: the index is rebuilt.
\<close>

theorem search_rebuild_policy_witness:
  "isIndexFresh (vanishing_cache cached_run)
   \<and> \<not> truthy (loadExistingIndex (vanishing_cache (vanishing_cache cached_run)))
   \<and> obtain_index example_host vanishing_cache \<lparr>rebuild = False, online = False, limit = None\<rparr> cached_run
       = rebuild_index example_host vanishing_cache
           (vanishing_cache (vanishing_cache (vanishing_cache cached_run)))
   \<and> built_skills example_host vanishing_cache
        (vanishing_cache (vanishing_cache (vanishing_cache cached_run)))
       = Some [stamp ''core'' (catalog_entry ''commit-wizard'' ''Smart git commits'' [''git'', ''commits'']),
               stamp ''community'' (catalog_entry ''doc-scribe'' ''Generate documentation'' [''documentation'']),
               stamp ''core'' (catalog_entry ''evolve'' ''Genetic algorithm optimizer'' [''optimization'', ''rust''])]"
proof -
  have "built_skills example_host vanishing_cache
        (vanishing_cache (vanishing_cache (vanishing_cache cached_run)))
       = Some [stamp ''core'' (catalog_entry ''commit-wizard'' ''Smart git commits'' [''git'', ''commits'']),
               stamp ''community'' (catalog_entry ''doc-scribe'' ''Generate documentation'' [''documentation'']),
               stamp ''core'' (catalog_entry ''evolve'' ''Genetic algorithm optimizer'' [''optimization'', ''rust''])]"
    by code_simp
  then show ?thesis
    using search_rebuild_policy [of vanishing_cache example_host "\<lparr>rebuild = False, online = False, limit = None\<rparr>" cached_run,
        OF vanishing_cache_stale]
      cached_run_fresh cached_run_absent
    by simp
qed

text \<open>
  The cache is fresh at the check of \<open>search\<close>, truncated when it is loaded, complete
  and fresh again at the check of \<open>buildIndex\<close>, which is called without \<open>force\<close>, and
  truncated when that loads it: nothing is rebuilt and the search fails.
\<close>

theorem fallback_counterexample:
  "isIndexFresh (flickering_cache cached_run)
   \<and> \<not> truthy (loadExistingIndex (flickering_cache (flickering_cache cached_run)))
   \<and> map_option fst
        (search example_host flickering_cache ''git''
           \<lparr>rebuild = False, online = False, limit = None\<rparr> cached_run)
       = Some (Inl TypeError)"
  by code_simp

section \<open>The flag of the result\<close>






end
